theory Spec2Isabelle
  imports Complex_Main "HOL-Library.Sublist" "HOL-Library.List_Lexorder" "HOL-Library.Char_ord"
    "HOL-Library.Multiset" "HOL-Library.Log_Nat"
begin

section \<open>Strings of the chat client\<close>

text \<open>
  A JavaScript string is a sequence of UTF-16 code units. The model reads a \<^typ>\<open>string\<close>
  as such a sequence restricted to the code units below 256 (Basic Latin and Latin-1
  Supplement), one \<^typ>\<open>char\<close> per code unit, so that \<^const>\<open>length\<close> is the
  \<^verbatim>\<open>length\<close> of the source. On this range \<^verbatim>\<open>toLowerCase\<close> works code unit by
  code unit: \<^verbatim>\<open>A\<close>..\<^verbatim>\<open>Z\<close> and the capital letters U+00C0..U+00DE (without the
  multiplication sign U+00D7) move up by 32, everything else stays.
\<close>

definition toLowerCase_char :: "char \<Rightarrow> char" where
  "toLowerCase_char c =
     (let n = (of_char c :: nat)
      in if (65 \<le> n \<and> n \<le> 90) \<or> (192 \<le> n \<and> n \<le> 222 \<and> n \<noteq> 215)
         then char_of (n + 32) else c)"

definition toLowerCase :: "string \<Rightarrow> string" where
  "toLowerCase s = map toLowerCase_char s"

text \<open>\<^verbatim>\<open>s.includes(t)\<close>: \<open>t\<close> occurs in \<open>s\<close> as a contiguous run of code units.\<close>

fun includes_str :: "string \<Rightarrow> string \<Rightarrow> bool" where
  "includes_str [] t = (t = [])"
| "includes_str (c # s) t = (prefix t (c # s) \<or> includes_str s t)"

text \<open>
  \<^verbatim>\<open>trim()\<close> strips white space and line terminators from both ends; below 256 these
  are TAB, LF, VT, FF, CR, SPACE and NO-BREAK SPACE.
\<close>

definition is_white :: "char \<Rightarrow> bool" where
  "is_white c = ((of_char c :: nat) \<in> {9, 10, 11, 12, 13, 32, 160})"

definition trim :: "string \<Rightarrow> string" where
  "trim s = rev (dropWhile is_white (rev (dropWhile is_white s)))"

section \<open>The response generator\<close>

definition responses :: "string list" where
  "responses =
    [''That's an interesting question! Let me think about that...'',
     ''I understand what you're asking. Here's my perspective on that:'',
     ''Great question! Based on what you've shared, I would suggest:'',
     ''That's a thoughtful inquiry. Let me provide some insights:'',
     ''I appreciate you asking that. Here's what I think:'']"

definition greeting :: string where
  "greeting = ''Hello! I'm your AI assistant. How can I help you today?''"

definition doing_well :: string where
  "doing_well = ''I'm doing well, thank you for asking! I'm here and ready to help with any questions or tasks you have.''"

definition capabilities :: string where
  "capabilities = ''I can help you with a wide variety of tasks including answering questions, providing explanations, helping with creative writing, solving problems, and having conversations on many topics. What would you like to explore?''"

definition detailed_clause :: string where
  "detailed_clause = ''You've shared quite a detailed message, and I appreciate the context.''"

definition thanks_clause :: string where
  "thanks_clause = ''Thanks for sharing that with me.''"

subsection \<open>The numbers of the random draw\<close>

text \<open>
  \<^verbatim>\<open>Math.random()\<close> returns an IEEE 754 double, and the product with the length of the
  array is a double again, rounded to the nearest, ties to even. A non-negative finite
  double is \<open>m * 2 ^ e\<close> with a significand \<open>m\<close> below \<open>2 ^ 53\<close> and an exponent \<open>e\<close> of
  at least \<open>- 1074\<close>; the model has it as the pair \<open>(m, e)\<close>. The doubles from 0 up to, not
  including, 1, which are the values \<^verbatim>\<open>Math.random()\<close> can return, are the pairs with
  \<open>e \<le> - 53\<close>: a normal one has \<open>2 ^ 52 \<le> m\<close>, a subnormal one \<open>e = - 1074\<close>.
\<close>

type_synonym double = "nat \<times> int"

definition in_unit_interval :: "double \<Rightarrow> bool" where
  "in_unit_interval d = (case d of (m, e) \<Rightarrow> m < 2 ^ 53 \<and> - 1074 \<le> e \<and> e \<le> - 53)"

text \<open>
  \<open>M\<close> without its last \<open>s\<close> bits, rounded to the nearest integer, a tie to the even one.
\<close>

definition round_half_even :: "nat \<Rightarrow> nat \<Rightarrow> nat" where
  "round_half_even M s =
     (let q = M div 2 ^ s; r = M mod 2 ^ s
      in if 2 * r < 2 ^ s then q
         else if 2 ^ s < 2 * r then q + 1
         else if even q then q else q + 1)"

text \<open>
  The double product of a double and a natural number \<open>n\<close> (an array length, itself a
  double): the exact product \<open>m * n * 2 ^ e\<close>, rounded to 53 significant bits.
  \<open>floorlog 2 M\<close> is the number of bits of \<open>M\<close>. The exponent only grows, so that the
  result is not subnormal where bits are dropped; products beyond the range of the doubles
  do not arise from a draw below 1 and a length below \<open>2 ^ 53\<close>.
\<close>

definition times_nat :: "double \<Rightarrow> nat \<Rightarrow> double" where
  "times_nat d n =
     (case d of (m, e) \<Rightarrow>
        let M = m * n; s = floorlog 2 M - 53
        in (round_half_even M s, e + int s))"

text \<open>\<^verbatim>\<open>Math.floor\<close> of a non-negative double: an index.\<close>

definition Math_floor :: "double \<Rightarrow> nat" where
  "Math_floor d =
     (case d of (m, e) \<Rightarrow> if 0 \<le> e then m * 2 ^ nat e else m div 2 ^ nat (- e))"

subsection \<open>The replies\<close>

text \<open>
  \<^verbatim>\<open>responses[Math.floor(Math.random() * responses.length)]\<close>. The draw of
  \<^verbatim>\<open>Math.random()\<close> is the argument \<open>rnd\<close>. An index outside the array reads
  \<^verbatim>\<open>undefined\<close>, which the template literal of the last line prints as the word.
\<close>

definition randomResponse :: "double \<Rightarrow> string" where
  "randomResponse rnd =
     (let i = Math_floor (times_nat rnd (length responses))
      in if i < length responses then responses ! i else ''undefined'')"

definition generateAIResponse :: "double \<Rightarrow> string \<Rightarrow> string" where
  "generateAIResponse rnd userMessage =
     (if includes_str (toLowerCase userMessage) ''hello'' \<or> includes_str (toLowerCase userMessage) ''hi''
        then greeting
      else if includes_str (toLowerCase userMessage) ''how are you'' then doing_well
      else if includes_str (toLowerCase userMessage) ''what can you do'' then capabilities
      else randomResponse rnd @ '' '' @
             (if length userMessage > 50 then detailed_clause else thanks_clause))"

subsection \<open>Occurrence of a phrase in any letter case\<close>

text \<open>
  The upper-case form of an ASCII lower-case letter; no other character has one. A phrase
  \<open>t\<close> of lower-case letters and spaces occurs in \<open>s\<close> in any letter case when some
  contiguous run of \<open>s\<close> spells \<open>t\<close>, each letter in either case.
\<close>

definition upper_of :: "char \<Rightarrow> char" where
  "upper_of c =
     (let n = (of_char c :: nat) in if 97 \<le> n \<and> n \<le> 122 then char_of (n - 32) else c)"

definition same_letter :: "char \<Rightarrow> char \<Rightarrow> bool" where
  "same_letter a c = (a = c \<or> a = upper_of c)"

definition occurs_any_case :: "string \<Rightarrow> string \<Rightarrow> bool" where
  "occurs_any_case t s = (\<exists>ps w ss. s = ps @ w @ ss \<and> list_all2 same_letter w t)"

definition plain :: "char \<Rightarrow> bool" where
  "plain c = (let n = (of_char c :: nat) in n = 32 \<or> (97 \<le> n \<and> n \<le> 122))"

section \<open>The conversation controller\<close>

subsection \<open>Messages and component state\<close>

datatype role = User | Assistant

text \<open>The interface \<^verbatim>\<open>Message\<close>; its field \<^verbatim>\<open>id\<close> is \<open>msg_id\<close> here.\<close>

record Message =
  msg_id :: string
  role :: role
  content :: string
  created_at :: string

text \<open>The error object of a failed store call.\<close>

datatype store_error = PostgrestError string

record toast =
  title :: string
  description :: string
  variant :: string

text \<open>
  The four \<^verbatim>\<open>useState\<close> cells of \<^verbatim>\<open>ChatInterface\<close>, and the two effects the
  component has besides them: the notifications raised with \<^verbatim>\<open>toast\<close> and the lines
  written with \<^verbatim>\<open>console.error\<close>, oldest first.
\<close>

record state =
  messages :: "Message list"
  input :: string
  loading :: bool
  loadingMessages :: bool
  toasts :: "toast list"
  console :: "(string \<times> store_error) list"

definition initial :: state where
  "initial = \<lparr>messages = [], input = [], loading = False, loadingMessages = True,
               toasts = [], console = []\<rparr>"

definition setMessages :: "(Message list \<Rightarrow> Message list) \<Rightarrow> state \<Rightarrow> state" where
  "setMessages f s = s\<lparr>messages := f (messages s)\<rparr>"

definition setInput :: "string \<Rightarrow> state \<Rightarrow> state" where
  "setInput v s = s\<lparr>input := v\<rparr>"

definition setLoading :: "bool \<Rightarrow> state \<Rightarrow> state" where
  "setLoading b s = s\<lparr>loading := b\<rparr>"

definition setLoadingMessages :: "bool \<Rightarrow> state \<Rightarrow> state" where
  "setLoadingMessages b s = s\<lparr>loadingMessages := b\<rparr>"

definition raise_toast :: "toast \<Rightarrow> state \<Rightarrow> state" where
  "raise_toast t s = s\<lparr>toasts := toasts s @ [t]\<rparr>"

definition console_error :: "string \<Rightarrow> store_error \<Rightarrow> state \<Rightarrow> state" where
  "console_error label e s = s\<lparr>console := console s @ [(label, e)]\<rparr>"

subsection \<open>Asynchronous functions as flows\<close>

text \<open>
  An \<^verbatim>\<open>async\<close> function is a tree of its steps. \<open>Update f\<close> is a synchronous effect
  on the component (a state setter, a toast, a console line), applied to the state of the
  moment it runs, as React's setters are. \<open>Await_select k\<close> and \<open>Await_insert u r c k\<close>
  suspend the function on a call to the store, the query
  \<^verbatim>\<open>from('messages').select('*').order('created_at', {ascending: true})\<close> or the
  insertion \<^verbatim>\<open>from('messages').insert({user_id: u, role: r, content: c}).select().single()\<close>;
  \<open>k\<close> is the rest of the function, given the store's answer: an error, or the data. The
  store is the Supabase client, outside this repository; what it answers is not fixed here.
\<close>

type_synonym select_response = "store_error + Message list option"

type_synonym insert_response = "store_error + Message"

datatype flow =
    Done
  | Update "state \<Rightarrow> state" flow
  | Await_select "select_response \<Rightarrow> flow"
  | Await_insert "string option" role string "insert_response \<Rightarrow> flow"

definition load_failed_toast :: toast where
  "load_failed_toast =
     \<lparr>title = ''Error'', description = ''Failed to load messages'', variant = ''destructive''\<rparr>"

definition send_failed_toast :: toast where
  "send_failed_toast =
     \<lparr>title = ''Error'', description = ''Failed to send message'', variant = ''destructive''\<rparr>"

text \<open>
  \<^verbatim>\<open>loadMessages\<close>: \<^verbatim>\<open>if (error) throw error; setMessages(data || [])\<close>, the
  \<^verbatim>\<open>catch\<close> block with its console line and toast, and \<^verbatim>\<open>finally\<close>
  \<^verbatim>\<open>setLoadingMessages(false)\<close> on both paths.
\<close>

definition loadMessages :: flow where
  "loadMessages =
     Await_select (\<lambda>resp. case resp of
         Inl error \<Rightarrow>
           Update (console_error ''Error loading messages:'' error)
          (Update (raise_toast load_failed_toast)
          (Update (setLoadingMessages False) Done))
       | Inr data \<Rightarrow>
           Update (setMessages (\<lambda>_. case data of None \<Rightarrow> [] | Some rows \<Rightarrow> rows))
          (Update (setLoadingMessages False) Done))"

text \<open>
  \<^verbatim>\<open>saveMessage\<close> returns the inserted row, or logs the error and throws it again; the
  caller's continuation \<open>k\<close> receives the row (\<open>Inr\<close>) or the thrown error (\<open>Inl\<close>).
  \<open>user\<close> is \<^verbatim>\<open>user?.id\<close>: the identifier of the signed-in user, if there is one.
\<close>

definition saveMessage :: "string option \<Rightarrow> role \<Rightarrow> string \<Rightarrow> (insert_response \<Rightarrow> flow) \<Rightarrow> flow" where
  "saveMessage user r c k =
     Await_insert user r c (\<lambda>resp. case resp of
         Inl error \<Rightarrow> Update (console_error ''Error saving message:'' error) (k (Inl error))
       | Inr data \<Rightarrow> k (Inr data))"

text \<open>The \<^verbatim>\<open>catch\<close> and \<^verbatim>\<open>finally\<close> blocks of \<^verbatim>\<open>sendMessage\<close>.\<close>

definition send_failed :: "store_error \<Rightarrow> flow" where
  "send_failed error =
     Update (console_error ''Error sending message:'' error)
    (Update (raise_toast send_failed_toast)
    (Update (setLoading False) Done))"

text \<open>
  \<^verbatim>\<open>sendMessage\<close>. The handler reads \<^verbatim>\<open>input\<close> and \<^verbatim>\<open>loading\<close> as constants
  of the render that created it: \<open>s\<close> is the state of that render. Its setters act on the
  state of the moment they run. \<open>rnd\<close> is the draw of \<^verbatim>\<open>Math.random()\<close> the response
  generator will make.
  \<^verbatim>\<open>await generateAIResponse(...)\<close> suspends on a function that calls nothing outside, so
  no event comes in between: it is a synchronous step here.
\<close>

definition sendMessage :: "string option \<Rightarrow> double \<Rightarrow> state \<Rightarrow> flow" where
  "sendMessage user rnd s =
     (if trim (input s) = [] \<or> loading s then Done
      else
        let userMessage = trim (input s) in
        Update (setInput [])
       (Update (setLoading True)
       (saveMessage user User userMessage (\<lambda>r1. case r1 of
            Inl error \<Rightarrow> send_failed error
          | Inr userMsg \<Rightarrow>
              Update (setMessages (\<lambda>prev. prev @ [userMsg]))
             (let aiResponse = generateAIResponse rnd userMessage in
              saveMessage user Assistant aiResponse (\<lambda>r2. case r2 of
                  Inl error \<Rightarrow> send_failed error
                | Inr assistantMsg \<Rightarrow>
                    Update (setMessages (\<lambda>prev. prev @ [assistantMsg]))
                   (Update (setLoading False) Done)))))))"

subsection \<open>Running a flow against a store\<close>

text \<open>
  A store with states \<open>'st\<close> answers the query by \<open>sel\<close> and an insertion by \<open>ins\<close>.
  \<open>exec\<close> runs a flow to its end with no other event in between, and returns the final
  component state, the final store and the store calls made, in order, each with its answer.
\<close>

datatype call =
    Select_call select_response
  | Insert_call "string option" role string insert_response

primrec exec :: "('st \<Rightarrow> select_response \<times> 'st) \<Rightarrow>
    (string option \<Rightarrow> role \<Rightarrow> string \<Rightarrow> 'st \<Rightarrow> insert_response \<times> 'st) \<Rightarrow>
    flow \<Rightarrow> state \<Rightarrow> 'st \<Rightarrow> state \<times> 'st \<times> call list" where
  "exec sel ins Done s st = (s, st, [])"
| "exec sel ins (Update f fl) s st = exec sel ins fl (f s) st"
| "exec sel ins (Await_select k) s st =
     (case sel st of (resp, st1) \<Rightarrow>
        (case exec sel ins (k resp) s st1 of (s', st', calls) \<Rightarrow>
           (s', st', Select_call resp # calls)))"
| "exec sel ins (Await_insert u r c k) s st =
     (case ins u r c st of (resp, st1) \<Rightarrow>
        (case exec sel ins (k resp) s st1 of (s', st', calls) \<Rightarrow>
           (s', st', Insert_call u r c resp # calls)))"

subsection \<open>The component among its events\<close>

text \<open>
  The component runs on one thread: a handler or the rest of a suspended function runs up
  to its next \<^verbatim>\<open>await\<close> (or its end) before anything else does. \<open>sync\<close> is that run:
  the state after the synchronous steps, and the suspended rest.
\<close>

primrec sync :: "flow \<Rightarrow> state \<Rightarrow> state \<times> flow" where
  "sync Done s = (s, Done)"
| "sync (Update f fl) s = sync fl (f s)"
| "sync (Await_select k) s = (s, Await_select k)"
| "sync (Await_insert u r c k) s = (s, Await_insert u r c k)"

text \<open>
  A configuration is the component state \<open>ui\<close>, the state \<open>rendered\<close> that the last
  render has shown and that the handlers of the page have captured, and the functions
  suspended on the store, oldest first. Nothing in it bounds their number.
\<close>

record config =
  ui :: state
  rendered :: state
  pending :: "flow list"

definition launch :: "flow \<Rightarrow> config \<Rightarrow> config" where
  "launch fl c =
     (case sync fl (ui c) of (s', rest) \<Rightarrow>
        c\<lparr>ui := s', pending := (case rest of Done \<Rightarrow> pending c | _ \<Rightarrow> pending c @ [rest])\<rparr>)"

definition remove_nth :: "nat \<Rightarrow> 'a list \<Rightarrow> 'a list" where
  "remove_nth i xs = take i xs @ drop (Suc i) xs"

text \<open>
  The events. A send request: the button or the Enter key calls the \<^verbatim>\<open>sendMessage\<close> of
  the last render, which reads the \<^verbatim>\<open>input\<close> and \<^verbatim>\<open>loading\<close> of that render; \<open>rnd\<close>
  is the draw its response generator will make. A change of the input field:
  \<^verbatim>\<open>onChange\<close> is \<^verbatim>\<open>setInput(e.target.value)\<close>, with no test. A render: the page and
  its handlers are made anew from the component state. The store's answer to the \<open>i\<close>-th
  suspended function. Any event may follow any other: nothing here says that a render
  comes between two requests, or that no change comes while a send is suspended.
\<close>

datatype event =
    Send double
  | Change string
  | Render
  | Select_reply nat select_response
  | Insert_reply nat insert_response

fun step :: "string option \<Rightarrow> config \<Rightarrow> event \<Rightarrow> config" where
  "step user c (Send rnd) = launch (sendMessage user rnd (rendered c)) c"
| "step user c (Change v) = c\<lparr>ui := setInput v (ui c)\<rparr>"
| "step user c Render = c\<lparr>rendered := ui c\<rparr>"
| "step user c (Select_reply i resp) =
     (if i < length (pending c)
      then (case pending c ! i of
              Await_select k \<Rightarrow> launch (k resp) (c\<lparr>pending := remove_nth i (pending c)\<rparr>)
            | _ \<Rightarrow> c)
      else c)"
| "step user c (Insert_reply i resp) =
     (if i < length (pending c)
      then (case pending c ! i of
              Await_insert u r m k \<Rightarrow> launch (k resp) (c\<lparr>pending := remove_nth i (pending c)\<rparr>)
            | _ \<Rightarrow> c)
      else c)"


text \<open>
  The component as mounted: the first render shows the initial state, and the effect starts
  \<^verbatim>\<open>loadMessages\<close>.
\<close>

definition mounted :: config where
  "mounted = launch loadMessages \<lparr>ui = initial, rendered = initial, pending = []\<rparr>"







subsection \<open>The store's list operation\<close>

text \<open>
  The persistent store is the Supabase service; neither it nor the access policy of its
  table \<^verbatim>\<open>messages\<close> is under \<^verbatim>\<open>src/\<close>. A row of the table is a message with the
  \<^verbatim>\<open>user_id\<close> it was inserted under.
\<close>

record Row =
  user_id :: string
  message :: Message

text \<open>
  Modelled from the spec: the list operation of the store, which is not in the source. The
  spec gives it as \<^verbatim>\<open>list_messages(user) -> ordered sequence of Message, ascending by
  creation time\<close>, every message belonging to exactly one user. Timestamps compare as
  strings, which for timestamps of one format and time zone is the order of time; rows
  with equal timestamps keep the order of the table.
\<close>

definition list_messages :: "string \<Rightarrow> Row list \<Rightarrow> Message list" where
  "list_messages u rows = sort_key created_at (map message (filter (\<lambda>r. user_id r = u) rows))"

text \<open>
  Modelled from the spec: the answer of that store to the query of \<^verbatim>\<open>loadMessages\<close> in
  the session of user \<open>u\<close>. The query itself names no user; the session does.
\<close>

definition store_select :: "string \<Rightarrow> Row list \<Rightarrow> select_response \<times> Row list" where
  "store_select u rows = (Inr (Some (list_messages u rows)), rows)"

subsection \<open>A store and a state for the examples\<close>

text \<open>
  The chat screen with \<^verbatim>\<open>Hello there\<close> typed between blanks, a store that accepts
  the first \<open>limit\<close> insertions and is offline afterwards (its state counts the calls),
  a draw, and a store whose query fails.
\<close>

definition demo_state :: state where
  "demo_state = \<lparr>messages = [], input = ''  Hello there '', loading = False,
                  loadingMessages = False, toasts = [], console = []\<rparr>"

definition demo_insert :: "nat \<Rightarrow> string option \<Rightarrow> role \<Rightarrow> string \<Rightarrow> nat \<Rightarrow> insert_response \<times> nat" where
  "demo_insert limit u r c n =
     (if n < limit
      then Inr \<lparr>msg_id = replicate (Suc n) CHR ''m'', role = r, content = c,
                created_at = replicate (Suc n) CHR ''1''\<rparr>
      else Inl (PostgrestError ''offline''),
      Suc n)"

text \<open>The double nearest to 0.6, as a draw.\<close>

definition demo_draw :: double where
  "demo_draw = (5404319552844595, - 53)"

definition demo_select :: "nat \<Rightarrow> select_response \<times> nat" where
  "demo_select n = (Inl (PostgrestError ''offline''), Suc n)"

text \<open>A table with rows of two users, not in order of time.\<close>

definition demo_rows :: "Row list" where
  "demo_rows =
    [\<lparr>user_id = ''alice'',
      message = \<lparr>msg_id = ''a2'', role = Assistant, content = ''Hello!'',
                 created_at = ''2024-05-01T10:00:05Z''\<rparr>\<rparr>,
     \<lparr>user_id = ''bob'',
      message = \<lparr>msg_id = ''b1'', role = User, content = ''secret'',
                 created_at = ''2024-05-01T10:00:03Z''\<rparr>\<rparr>,
     \<lparr>user_id = ''alice'',
      message = \<lparr>msg_id = ''a1'', role = User, content = ''hi'',
                 created_at = ''2024-05-01T10:00:01Z''\<rparr>\<rparr>]"

section \<open>Properties of the response generator\<close>

lemma includes_iff: "includes_str s t \<longleftrightarrow> (\<exists>ps ss. s = ps @ t @ ss)"
proof (induction s)
  case Nil
  then show ?case by auto
next
  case (Cons c s)
  show ?case
  proof
    assume "includes_str (c # s) t"
    then consider "prefix t (c # s)" | "includes_str s t" by auto
    then show "\<exists>ps ss. c # s = ps @ t @ ss"
    proof cases
      case 1
      then obtain ss where "c # s = t @ ss" by (auto simp: prefix_def)
      then have "c # s = [] @ t @ ss" by simp
      then show ?thesis by blast
    next
      case 2
      with Cons.IH obtain ps ss where "s = ps @ t @ ss" by blast
      then have "c # s = (c # ps) @ t @ ss" by simp
      then show ?thesis by blast
    qed
  next
    assume "\<exists>ps ss. c # s = ps @ t @ ss"
    then obtain ps ss where eq: "c # s = ps @ t @ ss" by blast
    show "includes_str (c # s) t"
    proof (cases ps)
      case Nil
      with eq have "prefix t (c # s)" by (simp add: prefix_def)
      then show ?thesis by simp
    next
      case (Cons p ps')
      with eq have "s = ps' @ t @ ss" by simp
      with Cons.IH have "includes_str s t" by blast
      then show ?thesis by simp
    qed
  qed
qed

lemma map_eq_append_split:
  assumes "map f s = ps @ t @ ss"
  shows "\<exists>ps' w ss'. s = ps' @ w @ ss' \<and> map f w = t"
proof -
  from assms obtain us vs where s1: "s = us @ vs" and vs: "t @ ss = map f vs"
    unfolding map_eq_append_conv by blast
  from vs[symmetric] obtain w ss' where s2: "vs = w @ ss'" and w: "t = map f w"
    unfolding map_eq_append_conv by blast
  from s1 s2 w show ?thesis by auto
qed

lemma of_char_lt_256: "(of_char c :: nat) < 256"
  by (cases c) simp

lemma toLowerCase_char_plain: "plain c \<Longrightarrow> toLowerCase_char c = c"
  by (auto simp: plain_def toLowerCase_char_def Let_def)

lemma toLowerCase_char_upper_of: "plain c \<Longrightarrow> toLowerCase_char (upper_of c) = c"
  by (auto simp: plain_def toLowerCase_char_def upper_of_def Let_def)

lemma toLowerCase_char_same_letter:
  "plain c \<Longrightarrow> same_letter a c \<Longrightarrow> toLowerCase_char a = c"
  by (auto simp: same_letter_def toLowerCase_char_plain toLowerCase_char_upper_of)

lemma same_letter_of_toLowerCase_char:
  assumes "plain c" and "toLowerCase_char a = c"
  shows "same_letter a c"
proof -
  let ?n = "of_char a :: nat"
  have lt: "?n < 256" by (rule of_char_lt_256)
  consider (up) "65 \<le> ?n \<and> ?n \<le> 90" | (lat) "192 \<le> ?n \<and> ?n \<le> 222 \<and> ?n \<noteq> 215"
    | (other) "\<not> ((65 \<le> ?n \<and> ?n \<le> 90) \<or> (192 \<le> ?n \<and> ?n \<le> 222 \<and> ?n \<noteq> 215))"
    by blast
  then show ?thesis
  proof cases
    case up
    then have c: "c = char_of (?n + 32)"
      using assms(2) by (simp add: toLowerCase_char_def Let_def)
    then have "(of_char c :: nat) = ?n + 32" using up by simp
    then have "upper_of c = char_of ?n" using up by (simp add: upper_of_def Let_def)
    then show ?thesis by (simp add: same_letter_def)
  next
    case lat
    then have c: "c = char_of (?n + 32)"
      using assms(2) by (simp add: toLowerCase_char_def Let_def)
    then have "(of_char c :: nat) = ?n + 32" using lat by simp
    with assms(1) lat show ?thesis by (simp add: plain_def Let_def)
  next
    case other
    with assms(2) have "c = a" unfolding toLowerCase_char_def Let_def by (simp only: if_False)
    then show ?thesis by (simp add: same_letter_def)
  qed
qed

lemma map_toLowerCase_char_spelling:
  "list_all2 same_letter w t \<Longrightarrow> list_all plain t \<Longrightarrow> map toLowerCase_char w = t"
  by (induction rule: list_all2_induct) (auto simp: toLowerCase_char_same_letter)

lemma spelling_of_map_toLowerCase_char:
  "list_all plain t \<Longrightarrow> map toLowerCase_char w = t \<Longrightarrow> list_all2 same_letter w t"
  by (induction w arbitrary: t) (auto simp: same_letter_of_toLowerCase_char)

lemma includes_toLowerCase_iff:
  assumes "list_all plain t"
  shows "includes_str (toLowerCase s) t \<longleftrightarrow> occurs_any_case t s"
proof
  assume "includes_str (toLowerCase s) t"
  then have "\<exists>ps ss. map toLowerCase_char s = ps @ t @ ss"
    by (simp only: includes_iff toLowerCase_def)
  then obtain ps ss where "map toLowerCase_char s = ps @ t @ ss" by blast
  then have "\<exists>ps' w ss'. s = ps' @ w @ ss' \<and> map toLowerCase_char w = t"
    by (rule map_eq_append_split)
  then obtain ps' w ss' where s: "s = ps' @ w @ ss'" and w: "map toLowerCase_char w = t"
    by blast
  from assms w have "list_all2 same_letter w t" by (rule spelling_of_map_toLowerCase_char)
  with s show "occurs_any_case t s" unfolding occurs_any_case_def by blast
next
  assume "occurs_any_case t s"
  then obtain ps w ss where s: "s = ps @ w @ ss" and w: "list_all2 same_letter w t"
    unfolding occurs_any_case_def by blast
  from w assms have "map toLowerCase_char w = t" by (rule map_toLowerCase_char_spelling)
  with s have "toLowerCase s = map toLowerCase_char ps @ t @ map toLowerCase_char ss"
    by (simp add: toLowerCase_def)
  then show "includes_str (toLowerCase s) t" unfolding includes_iff by blast
qed

lemma plain_hello: "list_all plain ''hello''"
  by (simp add: plain_def)

lemma plain_hi: "list_all plain ''hi''"
  by (simp add: plain_def)

lemma plain_how_are_you: "list_all plain ''how are you''"
  by (simp add: plain_def)

lemma plain_what_can_you_do: "list_all plain ''what can you do''"
  by (simp add: plain_def)

lemma round_cases:
  assumes "M = 2 ^ s * q + r" and "r < 2 ^ s"
  shows "round_half_even M s =
     (if 2 * r < 2 ^ s then q else if 2 ^ s < 2 * r then q + 1 else if even q then q else q + 1)"
proof -
  from assms have "M div 2 ^ s = q" "M mod 2 ^ s = r" by simp_all
  then show ?thesis by (simp add: round_half_even_def)
qed

lemma round_half_even_bound:
  assumes "m < 8 * N" and "s \<le> 3"
  shows "round_half_even (m * 5) s < 5 * (2 ^ (3 - s) * N)"
proof -
  define q where "q = m * 5 div 2 ^ s"
  define r where "r = m * 5 mod 2 ^ s"
  have eq: "m * 5 = 2 ^ s * q + r" and r: "r < 2 ^ s" by (simp_all add: q_def r_def)
  note R = round_cases [OF eq r]
  from assms(2) consider "s = 0" | "s = 1" | "s = 2" | "s = 3" by linarith
  then show ?thesis
  proof cases
    case 1
    with eq r assms(1) show ?thesis unfolding R by simp
  next
    case 2
    with eq r assms(1) have "m * 5 = 2 * q + r" "r < 2" "m < 8 * N" by simp_all
    then have "q + 1 < 20 * N" by arith
    with 2 show ?thesis unfolding R by simp
  next
    case 3
    with eq r assms(1) have "m * 5 = 4 * q + r" "r < 4" "m < 8 * N" by simp_all
    then have "q + 1 < 10 * N" by arith
    with 3 show ?thesis unfolding R by simp
  next
    case 4
    with eq r assms(1) have e: "m * 5 = 8 * q + r" "r < 8" "m < 8 * N" by simp_all
    then have a: "q < 5 * N" by arith
    from e have b: "4 \<le> r \<Longrightarrow> q + 1 < 5 * N" by arith
    from 4 a b show ?thesis unfolding R by auto
  qed
qed


lemma shift_bound:
  assumes "m < 2 ^ 53"
  shows "floorlog 2 (m * 5) - 53 \<le> 3"
proof -
  have "m * 5 < 2 ^ 56" using assms by simp
  then have "floorlog 2 (m * 5) \<le> 56" by (simp add: floorlog_le_iff)
  then show ?thesis by simp
qed

lemma index_in_range:
  assumes "in_unit_interval d"
  shows "Math_floor (times_nat d 5) < 5"
proof -
  obtain m e where d: "d = (m, e)" by (cases d)
  with assms have m: "m < 8 * 2 ^ 50" and e: "e \<le> - 53" by (simp_all add: in_unit_interval_def)
  define s where "s = floorlog 2 (m * 5) - 53"
  have s: "s \<le> 3" unfolding s_def using m by (simp add: shift_bound)
  define R where "R = round_half_even (m * 5) s"
  have R: "R < 5 * (2 ^ (3 - s) * 2 ^ 50)" unfolding R_def using m s by (rule round_half_even_bound)
  define k where "k = nat (- (e + int s))"
  from e s have neg: "\<not> 0 \<le> e + int s" by simp
  from e s have "(3 - s) + 50 \<le> k" unfolding k_def by simp
  then have "(2::nat) ^ ((3 - s) + 50) \<le> 2 ^ k" by (rule power_increasing) simp
  then have "(2::nat) ^ (3 - s) * 2 ^ 50 \<le> 2 ^ k" by (simp only: power_add)
  then have "5 * ((2::nat) ^ (3 - s) * 2 ^ 50) \<le> 5 * 2 ^ k" by (rule mult_le_mono2)
  with R have "R < 5 * 2 ^ k" by (rule less_le_trans)
  then have "R div 2 ^ k < 5" by (simp add: less_mult_imp_div_less)
  with neg show ?thesis unfolding k_def
    by (simp add: d times_nat_def Math_floor_def Let_def s_def [symmetric] R_def [symmetric])
qed

lemma randomResponse_in_responses:
  assumes "in_unit_interval rnd"
  shows "randomResponse rnd \<in> set responses"
proof -
  have n: "length responses = 5" by (simp add: responses_def)
  from assms have "Math_floor (times_nat rnd 5) < 5" by (rule index_in_range)
  then have i: "Math_floor (times_nat rnd (length responses)) < length responses"
    by (simp only: n)
  then have "responses ! Math_floor (times_nat rnd (length responses)) \<in> set responses"
    by (rule nth_mem)
  with i show ?thesis by (simp add: randomResponse_def Let_def)
qed

lemma floorlog_demo: "floorlog 2 (27021597764222975::nat) = 55"
  by (simp add: compute_floorlog)

lemma times_demo: "times_nat demo_draw 5 = (6755399441055744, - 51)"
  by (simp add: demo_draw_def times_nat_def floorlog_demo round_half_even_def)

lemma randomResponse_demo:
  "randomResponse demo_draw = ''That's a thoughtful inquiry. Let me provide some insights:''"
proof -
  have n: "length responses = 5" by (simp add: responses_def)
  have "Math_floor (times_nat demo_draw 5) = 3" by (simp add: times_demo Math_floor_def)
  then show ?thesis by (simp add: randomResponse_def n) (simp add: responses_def)
qed

text \<open>
  C7. Whenever \<open>hello\<close> occurs in the input in any letter case, the response generator
  returns the fixed greeting, whatever else the input holds and whatever the random draw
  is. The greeting test is the first of the generator, so no trigger ranks above it. The
  generator is a total function of the input and the draw: it has no failing branch and
  calls nothing.
\<close>

theorem hello_yields_greeting:
  "occurs_any_case ''hello'' userMessage \<Longrightarrow> generateAIResponse rnd userMessage = greeting"
  by (simp add: generateAIResponse_def includes_toLowerCase_iff [OF plain_hello])

theorem hello_yields_greeting_witness:
  "occurs_any_case ''hello'' ''Well, HeLLo there! How are you?'' \<and>
   generateAIResponse demo_draw ''Well, HeLLo there! How are you?'' = greeting"
proof -
  have sp: "list_all2 same_letter ''HeLLo'' ''hello''" by code_simp
  have "''Well, HeLLo there! How are you?'' = ''Well, '' @ ''HeLLo'' @ '' there! How are you?''"
    by simp
  with sp have h: "occurs_any_case ''hello'' ''Well, HeLLo there! How are you?''"
    unfolding occurs_any_case_def by blast
  from h hello_yields_greeting [OF h, of demo_draw] show ?thesis by simp
qed

text \<open>
  C8. When none of the four trigger phrases occurs in the input (in any letter case) and
  the draw is a double that \<^verbatim>\<open>Math.random()\<close> can return, from 0 up to but not including
  1, the output is one of the five generic openers, a space, and a trailing clause that
  depends on the length of the input alone: the acknowledgement clause up to 50 characters,
  the detailed-message clause above. The index of the opener is computed as the source
  does, in doubles.
\<close>

theorem generic_reply:
  assumes "\<not> occurs_any_case ''hello'' userMessage"
    and "\<not> occurs_any_case ''hi'' userMessage"
    and "\<not> occurs_any_case ''how are you'' userMessage"
    and "\<not> occurs_any_case ''what can you do'' userMessage"
    and "in_unit_interval rnd"
  shows "\<exists>opener \<in> set responses.
           generateAIResponse rnd userMessage =
             opener @ '' '' @
               (if length userMessage \<le> 50 then thanks_clause else detailed_clause)"
proof -
  have "generateAIResponse rnd userMessage =
      randomResponse rnd @ '' '' @
        (if length userMessage > 50 then detailed_clause else thanks_clause)"
    using assms(1-4)
    by (simp add: generateAIResponse_def includes_toLowerCase_iff [OF plain_hello]
        includes_toLowerCase_iff [OF plain_hi] includes_toLowerCase_iff [OF plain_how_are_you]
        includes_toLowerCase_iff [OF plain_what_can_you_do])
  moreover have "randomResponse rnd \<in> set responses"
    using assms(5) by (rule randomResponse_in_responses)
  ultimately show ?thesis by (auto simp: not_less)
qed

theorem generic_reply_witness:
  "(\<not> occurs_any_case ''hello'' ''Tell me a story'' \<and>
    \<not> occurs_any_case ''hi'' ''Tell me a story'' \<and>
    \<not> occurs_any_case ''how are you'' ''Tell me a story'' \<and>
    \<not> occurs_any_case ''what can you do'' ''Tell me a story'' \<and>
    in_unit_interval demo_draw) \<and>
   (\<exists>opener \<in> set responses.
      generateAIResponse demo_draw ''Tell me a story'' = opener @ '' '' @ thanks_clause) \<and>
   (\<exists>opener \<in> set responses.
      generateAIResponse demo_draw
        ''Please summarise the plot of a novel about two gardeners and a stolen tulip'' =
      opener @ '' '' @ detailed_clause) \<and>
   randomResponse demo_draw = ''That's a thoughtful inquiry. Let me provide some insights:''"
proof -
  let ?m = "''Tell me a story''"
  let ?l = "''Please summarise the plot of a novel about two gardeners and a stolen tulip''"
  have a1: "\<not> occurs_any_case ''hello'' ?m"
    unfolding includes_toLowerCase_iff [OF plain_hello, symmetric] by code_simp
  have a2: "\<not> occurs_any_case ''hi'' ?m"
    unfolding includes_toLowerCase_iff [OF plain_hi, symmetric] by code_simp
  have a3: "\<not> occurs_any_case ''how are you'' ?m"
    unfolding includes_toLowerCase_iff [OF plain_how_are_you, symmetric] by code_simp
  have a4: "\<not> occurs_any_case ''what can you do'' ?m"
    unfolding includes_toLowerCase_iff [OF plain_what_can_you_do, symmetric] by code_simp
  have b1: "\<not> occurs_any_case ''hello'' ?l"
    unfolding includes_toLowerCase_iff [OF plain_hello, symmetric] by code_simp
  have b2: "\<not> occurs_any_case ''hi'' ?l"
    unfolding includes_toLowerCase_iff [OF plain_hi, symmetric] by code_simp
  have b3: "\<not> occurs_any_case ''how are you'' ?l"
    unfolding includes_toLowerCase_iff [OF plain_how_are_you, symmetric] by code_simp
  have b4: "\<not> occurs_any_case ''what can you do'' ?l"
    unfolding includes_toLowerCase_iff [OF plain_what_can_you_do, symmetric] by code_simp
  have r: "in_unit_interval demo_draw" by (simp add: in_unit_interval_def demo_draw_def)
  from generic_reply [OF a1 a2 a3 a4 r]
  have short: "\<exists>opener \<in> set responses.
      generateAIResponse demo_draw ?m = opener @ '' '' @ thanks_clause" by simp
  from generic_reply [OF b1 b2 b3 b4 r]
  have long: "\<exists>opener \<in> set responses.
      generateAIResponse demo_draw ?l = opener @ '' '' @ detailed_clause" by simp
  from a1 a2 a3 a4 r short long randomResponse_demo show ?thesis by blast
qed

text \<open>
  C9. Whenever \<open>hi\<close> occurs in the input in any letter case, at any place, also inside a
  word, the generator returns the greeting; the input may hold \<open>how are you\<close> or
  \<open>what can you do\<close> as well, the answer is the greeting and neither of their replies.
\<close>

theorem hi_yields_greeting:
  "occurs_any_case ''hi'' userMessage \<Longrightarrow>
     generateAIResponse rnd userMessage = greeting \<and>
     generateAIResponse rnd userMessage \<noteq> doing_well \<and>
     generateAIResponse rnd userMessage \<noteq> capabilities"
  by (simp add: generateAIResponse_def includes_toLowerCase_iff [OF plain_hi]
      greeting_def doing_well_def capabilities_def)

theorem hi_yields_greeting_witness:
  "occurs_any_case ''hi'' ''Which one? how are you, and what can you do'' \<and>
   occurs_any_case ''how are you'' ''Which one? how are you, and what can you do'' \<and>
   occurs_any_case ''what can you do'' ''Which one? how are you, and what can you do'' \<and>
   generateAIResponse demo_draw ''Which one? how are you, and what can you do'' = greeting"
proof -
  let ?m = "''Which one? how are you, and what can you do''"
  have h: "occurs_any_case ''hi'' ?m"
    unfolding includes_toLowerCase_iff [OF plain_hi, symmetric] by code_simp
  have h2: "occurs_any_case ''how are you'' ?m"
    unfolding includes_toLowerCase_iff [OF plain_how_are_you, symmetric] by code_simp
  have h3: "occurs_any_case ''what can you do'' ?m"
    unfolding includes_toLowerCase_iff [OF plain_what_can_you_do, symmetric] by code_simp
  from h h2 h3 hi_yields_greeting [OF h, of demo_draw] show ?thesis by blast
qed

section \<open>Properties of the conversation controller\<close>

lemmas setters = setMessages_def setInput_def setLoading_def setLoadingMessages_def
  raise_toast_def console_error_def

lemma trim_white_iff: "trim v = [] \<longleftrightarrow> list_all is_white v"
proof (cases "dropWhile is_white v")
  case Nil
  then have "\<forall>x \<in> set v. is_white x" by (simp only: dropWhile_eq_Nil_conv)
  then have r: "list_all is_white v" by (simp add: list_all_iff)
  have "trim v = []" unfolding trim_def Nil by simp
  with r show ?thesis by simp
next
  case (Cons a as)
  then have ne: "dropWhile is_white v \<noteq> []" by simp
  from hd_dropWhile [OF ne] Cons have a: "\<not> is_white a" by simp
  have "a \<in> set (dropWhile is_white v)" using Cons by simp
  then have "a \<in> set v" by (rule set_dropWhileD)
  with a have r: "\<not> list_all is_white v" by (auto simp: list_all_iff)
  have "a \<in> set (rev (dropWhile is_white v))" using Cons by simp
  with a have "dropWhile is_white (rev (dropWhile is_white v)) \<noteq> []"
    unfolding dropWhile_eq_Nil_conv by blast
  then have "trim v \<noteq> []" by (simp add: trim_def)
  with r show ?thesis by simp
qed

lemma sendMessage_rejected:
  "trim (input s) = [] \<or> loading s \<Longrightarrow> sendMessage user rnd s = Done"
  by (auto simp: sendMessage_def)

lemma exec_sendMessage_first_fails:
  assumes "trim (input s) \<noteq> []" and "\<not> loading s"
    and "ins user User (trim (input s)) st = (Inl e, st1)"
  shows "exec sel ins (sendMessage user rnd s) s st =
    (s\<lparr>input := [], loading := False, toasts := toasts s @ [send_failed_toast],
        console := console s @ [(''Error saving message:'', e), (''Error sending message:'', e)]\<rparr>,
     st1, [Insert_call user User (trim (input s)) (Inl e)])"
  using assms by (simp add: sendMessage_def saveMessage_def send_failed_def Let_def setters)

lemma exec_sendMessage_second_fails:
  assumes "trim (input s) \<noteq> []" and "\<not> loading s"
    and "ins user User (trim (input s)) st = (Inr userMsg, st1)"
    and "ins user Assistant (generateAIResponse rnd (trim (input s))) st1 = (Inl e, st2)"
  shows "exec sel ins (sendMessage user rnd s) s st =
    (s\<lparr>messages := messages s @ [userMsg], input := [], loading := False,
        toasts := toasts s @ [send_failed_toast],
        console := console s @ [(''Error saving message:'', e), (''Error sending message:'', e)]\<rparr>,
     st2, [Insert_call user User (trim (input s)) (Inr userMsg),
           Insert_call user Assistant (generateAIResponse rnd (trim (input s))) (Inl e)])"
  using assms by (simp add: sendMessage_def saveMessage_def send_failed_def Let_def setters)

lemma exec_sendMessage_succeeds:
  assumes "trim (input s) \<noteq> []" and "\<not> loading s"
    and "ins user User (trim (input s)) st = (Inr userMsg, st1)"
    and "ins user Assistant (generateAIResponse rnd (trim (input s))) st1 = (Inr assistantMsg, st2)"
  shows "exec sel ins (sendMessage user rnd s) s st =
    (s\<lparr>messages := messages s @ [userMsg, assistantMsg], input := [], loading := False\<rparr>,
     st2, [Insert_call user User (trim (input s)) (Inr userMsg),
           Insert_call user Assistant (generateAIResponse rnd (trim (input s))) (Inr assistantMsg)])"
  using assms by (simp add: sendMessage_def saveMessage_def send_failed_def Let_def setters)


lemma exec_sendMessage_rejected:
  "trim (input s) = [] \<or> loading s \<Longrightarrow> exec sel ins (sendMessage user rnd s) s st = (s, st, [])"
  by (simp add: sendMessage_rejected)

text \<open>
  C1. Take a send on a non-blank input with no send in flight, and any store that accepts
  both insertions: the insertion of the trimmed input with role \<open>user\<close>, answered with a
  row \<open>userMsg\<close>, and then the insertion of the generated reply with role \<open>assistant\<close>,
  answered with a row \<open>assistantMsg\<close>. Run to its end, the send has made exactly these
  two store calls in this order, and the message sequence has grown by exactly the two rows
  the store returned, the user's first; no toast is raised and \<open>loading\<close> is cleared.
\<close>

theorem send_appends_user_then_assistant:
  assumes "trim (input s) \<noteq> []" and "\<not> loading s"
    and "ins user User (trim (input s)) st = (Inr userMsg, st1)"
    and "ins user Assistant (generateAIResponse rnd (trim (input s))) st1 = (Inr assistantMsg, st2)"
  shows "messages (fst (exec sel ins (sendMessage user rnd s) s st)) =
           messages s @ [userMsg, assistantMsg] \<and>
         snd (snd (exec sel ins (sendMessage user rnd s) s st)) =
           [Insert_call user User (trim (input s)) (Inr userMsg),
            Insert_call user Assistant (generateAIResponse rnd (trim (input s)))
              (Inr assistantMsg)] \<and>
         fst (snd (exec sel ins (sendMessage user rnd s) s st)) = st2 \<and>
         toasts (fst (exec sel ins (sendMessage user rnd s) s st)) = toasts s \<and>
         \<not> loading (fst (exec sel ins (sendMessage user rnd s) s st))"
proof -
  have "exec sel ins (sendMessage user rnd s) s st =
    (s\<lparr>messages := messages s @ [userMsg, assistantMsg], input := [], loading := False\<rparr>,
     st2, [Insert_call user User (trim (input s)) (Inr userMsg),
           Insert_call user Assistant (generateAIResponse rnd (trim (input s)))
             (Inr assistantMsg)])"
    using assms by (rule exec_sendMessage_succeeds)
  then show ?thesis by simp
qed

lemma trim_demo: "trim ''  Hello there '' = ''Hello there''"
  by (simp add: trim_def is_white_def)

lemma reply_demo: "generateAIResponse demo_draw ''Hello there'' = greeting"
proof -
  have "includes_str (toLowerCase ''Hello there'') ''hello''" by code_simp
  then show ?thesis by (simp add: generateAIResponse_def)
qed

lemma demo_ok: "trim (input demo_state) \<noteq> []" "\<not> loading demo_state"
  by (simp_all add: demo_state_def trim_demo)

theorem send_appends_user_then_assistant_witness:
  "(trim (input demo_state) \<noteq> [] \<and> \<not> loading demo_state \<and>
    demo_insert 2 (Some ''u1'') User (trim (input demo_state)) 0 =
      (Inr \<lparr>msg_id = ''m'', role = User, content = ''Hello there'', created_at = ''1''\<rparr>, 1) \<and>
    demo_insert 2 (Some ''u1'') Assistant
      (generateAIResponse demo_draw (trim (input demo_state))) 1 =
      (Inr \<lparr>msg_id = ''mm'', role = Assistant, content = greeting, created_at = ''11''\<rparr>, 2)) \<and>
   snd (snd (exec demo_select (demo_insert 2) (sendMessage (Some ''u1'') demo_draw demo_state)
     demo_state 0)) =
     [Insert_call (Some ''u1'') User ''Hello there''
        (Inr \<lparr>msg_id = ''m'', role = User, content = ''Hello there'', created_at = ''1''\<rparr>),
      Insert_call (Some ''u1'') Assistant greeting
        (Inr \<lparr>msg_id = ''mm'', role = Assistant, content = greeting, created_at = ''11''\<rparr>)] \<and>
   messages (fst (exec demo_select (demo_insert 2) (sendMessage (Some ''u1'') demo_draw demo_state)
     demo_state 0)) =
     [\<lparr>msg_id = ''m'', role = User, content = ''Hello there'', created_at = ''1''\<rparr>,
      \<lparr>msg_id = ''mm'', role = Assistant, content = greeting, created_at = ''11''\<rparr>]"
proof -
  let ?run = "exec demo_select (demo_insert 2) (sendMessage (Some ''u1'') demo_draw demo_state)
     demo_state 0"
  let ?m1 = "\<lparr>msg_id = ''m'', role = User, content = ''Hello there'', created_at = ''1''\<rparr>"
  let ?m2 = "\<lparr>msg_id = ''mm'', role = Assistant, content = greeting, created_at = ''11''\<rparr>"
  have i1: "demo_insert 2 (Some ''u1'') User (trim (input demo_state)) 0 = (Inr ?m1, 1)"
    by (simp add: demo_insert_def demo_state_def trim_demo)
  have i2: "demo_insert 2 (Some ''u1'') Assistant
      (generateAIResponse demo_draw (trim (input demo_state))) 1 = (Inr ?m2, 2)"
    by (simp add: demo_insert_def demo_state_def trim_demo reply_demo)
  note t = send_appends_user_then_assistant [where ins = "demo_insert 2" and sel = demo_select,
      OF demo_ok i1 i2]
  from t have calls: "snd (snd ?run) =
      [Insert_call (Some ''u1'') User ''Hello there'' (Inr ?m1),
       Insert_call (Some ''u1'') Assistant greeting (Inr ?m2)]"
    by (simp add: demo_state_def trim_demo reply_demo)
  from t have "messages (fst ?run) = messages demo_state @ [?m1, ?m2]" by blast
  then have msgs: "messages (fst ?run) = [?m1, ?m2]" by (simp add: demo_state_def)
  from demo_ok i1 i2 calls msgs show ?thesis by blast
qed

lemma launch_Done: "launch Done c = c"
  by (simp add: launch_def)

text \<open>
  C4. When the input field the handler sees holds white space only (or nothing), a send
  request does nothing: \<^verbatim>\<open>sendMessage\<close> returns at once, the component state, and with it
  the message sequence, is what it was, the store is not called, and the configuration of
  suspended functions is unchanged.
\<close>

theorem blank_input_is_noop:
  assumes "list_all is_white (input (rendered c))"
  shows "sendMessage user rnd (rendered c) = Done \<and>
         exec sel ins (sendMessage user rnd (rendered c)) (ui c) st = (ui c, st, []) \<and>
         step user c (Send rnd) = c"
proof -
  from assms have "trim (input (rendered c)) = []" by (simp add: trim_white_iff)
  then have "sendMessage user rnd (rendered c) = Done" by (simp add: sendMessage_rejected)
  then show ?thesis by (simp add: launch_Done)
qed

theorem blank_input_is_noop_witness:
  "list_all is_white (input (rendered
     \<lparr>ui = demo_state\<lparr>input := ''   ''\<rparr>, rendered = demo_state\<lparr>input := ''   ''\<rparr>,
      pending = []\<rparr>)) \<and>
   sendMessage None demo_draw (demo_state\<lparr>input := ''   ''\<rparr>) = Done \<and>
   exec demo_select (demo_insert 2) (sendMessage None demo_draw (demo_state\<lparr>input := ''   ''\<rparr>))
     (demo_state\<lparr>input := ''   ''\<rparr>) 0 = (demo_state\<lparr>input := ''   ''\<rparr>, 0, []) \<and>
   step None \<lparr>ui = demo_state\<lparr>input := ''   ''\<rparr>, rendered = demo_state\<lparr>input := ''   ''\<rparr>,
      pending = []\<rparr> (Send demo_draw) =
     \<lparr>ui = demo_state\<lparr>input := ''   ''\<rparr>, rendered = demo_state\<lparr>input := ''   ''\<rparr>,
      pending = []\<rparr>"
proof -
  let ?c = "\<lparr>ui = demo_state\<lparr>input := ''   ''\<rparr>, rendered = demo_state\<lparr>input := ''   ''\<rparr>,
      pending = []\<rparr>"
  have h: "list_all is_white (input (rendered ?c))" by (simp add: is_white_def)
  from h blank_input_is_noop [OF h, where user = None and rnd = demo_draw and sel = demo_select
      and ins = "demo_insert 2" and st = 0]
  show ?thesis by (simp add: launch_Done)
qed

lemma sync_sendMessage:
  assumes "trim (input s) \<noteq> []" and "\<not> loading s"
  shows "\<exists>k. sync (sendMessage user rnd s) s =
           (s\<lparr>input := [], loading := True\<rparr>, Await_insert user User (trim (input s)) k)"
  using assms by (simp add: sendMessage_def saveMessage_def Let_def setters)

text \<open>
  C3. If an insertion of a send fails, that call is the last store call of the send (no
  later step runs, nothing is retried), exactly one \<^verbatim>\<open>Failed to send message\<close> toast is
  raised and \<open>loading\<close> is cleared. Either the user insertion failed and the sequence is
  unchanged, or it succeeded and the assistant insertion failed, and then the sequence has
  grown by the user's row alone, which stays.
\<close>

theorem send_failure:
  assumes "exec sel ins (sendMessage user rnd s) s st = (s', st', calls)"
    and "Insert_call u r c (Inl e) \<in> set calls"
  shows "\<not> loading s' \<and> toasts s' = toasts s @ [send_failed_toast] \<and>
    (calls = [Insert_call user User (trim (input s)) (Inl e)] \<and> messages s' = messages s \<or>
     (\<exists>userMsg.
        calls = [Insert_call user User (trim (input s)) (Inr userMsg),
                 Insert_call user Assistant (generateAIResponse rnd (trim (input s))) (Inl e)] \<and>
        messages s' = messages s @ [userMsg]))"
proof -
  have ok: "trim (input s) \<noteq> []" "\<not> loading s"
    using assms exec_sendMessage_rejected [of s sel ins user rnd st] by auto
  obtain x1 st1 where i1: "ins user User (trim (input s)) st = (x1, st1)"
    by (cases "ins user User (trim (input s)) st")
  obtain x2 st2 where
    i2: "ins user Assistant (generateAIResponse rnd (trim (input s))) st1 = (x2, st2)"
    by (cases "ins user Assistant (generateAIResponse rnd (trim (input s))) st1")
  show ?thesis
  proof (cases x1)
    case (Inl e1)
    with exec_sendMessage_first_fails [where ins = ins and sel = sel and rnd = rnd,
        OF ok i1 [unfolded Inl]] assms
    show ?thesis by auto
  next
    case m1: (Inr m1)
    show ?thesis
    proof (cases x2)
      case (Inl e2)
      with exec_sendMessage_second_fails [where ins = ins and sel = sel,
          OF ok i1 [unfolded m1] i2 [unfolded Inl]] assms
      show ?thesis by auto
    next
      case (Inr m2)
      with exec_sendMessage_succeeds [where ins = ins and sel = sel,
          OF ok i1 [unfolded m1] i2 [unfolded Inr]] assms
      show ?thesis by auto
    qed
  qed
qed

theorem send_failure_witness:
  "Insert_call (Some ''u1'') Assistant greeting (Inl (PostgrestError ''offline'')) \<in>
     set (snd (snd (exec demo_select (demo_insert 1)
       (sendMessage (Some ''u1'') demo_draw demo_state) demo_state 0))) \<and>
   \<not> loading (fst (exec demo_select (demo_insert 1)
       (sendMessage (Some ''u1'') demo_draw demo_state) demo_state 0)) \<and>
   toasts (fst (exec demo_select (demo_insert 1)
       (sendMessage (Some ''u1'') demo_draw demo_state) demo_state 0)) = [send_failed_toast] \<and>
   messages (fst (exec demo_select (demo_insert 1)
       (sendMessage (Some ''u1'') demo_draw demo_state) demo_state 0)) =
     [\<lparr>msg_id = ''m'', role = User, content = ''Hello there'', created_at = ''1''\<rparr>]"
proof -
  let ?run = "exec demo_select (demo_insert 1) (sendMessage (Some ''u1'') demo_draw demo_state)
     demo_state 0"
  let ?m1 = "\<lparr>msg_id = ''m'', role = User, content = ''Hello there'', created_at = ''1''\<rparr>"
  let ?e = "PostgrestError ''offline''"
  have i1: "demo_insert 1 (Some ''u1'') User (trim (input demo_state)) 0 = (Inr ?m1, 1)"
    by (simp add: demo_insert_def demo_state_def trim_demo)
  have i2: "demo_insert 1 (Some ''u1'') Assistant
      (generateAIResponse demo_draw (trim (input demo_state))) 1 = (Inl ?e, 2)"
    by (simp add: demo_insert_def)
  have calls: "snd (snd ?run) =
      [Insert_call (Some ''u1'') User ''Hello there'' (Inr ?m1),
       Insert_call (Some ''u1'') Assistant greeting (Inl ?e)]"
    unfolding exec_sendMessage_second_fails [where ins = "demo_insert 1", OF demo_ok i1 i2]
    by (simp add: demo_state_def trim_demo reply_demo)
  then have h: "Insert_call (Some ''u1'') Assistant greeting (Inl ?e) \<in> set (snd (snd ?run))"
    by simp
  have run: "?run = (fst ?run, fst (snd ?run), snd (snd ?run))" by simp
  from send_failure [OF run h] calls
  have "\<not> loading (fst ?run) \<and> toasts (fst ?run) = toasts demo_state @ [send_failed_toast] \<and>
     messages (fst ?run) = messages demo_state @ [?m1]"
    by (auto simp: demo_state_def trim_demo)
  with h show ?thesis by (simp add: demo_state_def)
qed

lemma exec_loadMessages_fails:
  assumes "sel st = (Inl e, st1)"
  shows "exec sel ins loadMessages s st =
    (s\<lparr>loadingMessages := False, toasts := toasts s @ [load_failed_toast],
        console := console s @ [(''Error loading messages:'', e)]\<rparr>,
     st1, [Select_call (Inl e)])"
  using assms by (simp add: loadMessages_def setters)

lemma exec_loadMessages_succeeds:
  assumes "sel st = (Inr data, st1)"
  shows "exec sel ins loadMessages s st =
    (s\<lparr>messages := (case data of None \<Rightarrow> [] | Some rows \<Rightarrow> rows), loadingMessages := False\<rparr>,
     st1, [Select_call (Inr data)])"
  using assms by (simp add: loadMessages_def setters)

lemma mounted_eq: "mounted = \<lparr>ui = initial, rendered = initial, pending = [loadMessages]\<rparr>"
  by (simp add: mounted_def launch_def loadMessages_def)

text \<open>
  C6. When the query of the initial load fails, the message sequence is still empty, one
  \<^verbatim>\<open>Failed to load messages\<close> toast is raised, \<open>loadingMessages\<close> is cleared, the
  store is not asked again, and the mounted component reaches that state with nothing
  suspended.
\<close>

theorem load_failure:
  assumes "sel st = (Inl e, st1)"
    and "exec sel ins loadMessages initial st = (s', st', calls)"
  shows "messages s' = [] \<and> toasts s' = [load_failed_toast] \<and> \<not> loadingMessages s' \<and>
         calls = [Select_call (Inl e)] \<and>
         step user mounted (Select_reply 0 (Inl e)) =
           \<lparr>ui = s', rendered = initial, pending = []\<rparr>"
proof -
  from exec_loadMessages_fails [where sel = sel and ins = ins, OF assms(1), of initial] assms(2)
  have s': "s' = initial\<lparr>loadingMessages := False, toasts := toasts initial @ [load_failed_toast],
        console := console initial @ [(''Error loading messages:'', e)]\<rparr>"
    and calls: "calls = [Select_call (Inl e)]" by simp_all
  have "step user mounted (Select_reply 0 (Inl e)) = \<lparr>ui = s', rendered = initial, pending = []\<rparr>"
    unfolding s' mounted_eq
    by (simp add: loadMessages_def launch_def remove_nth_def setters)
  with s' calls show ?thesis by (simp add: initial_def)
qed

theorem load_failure_witness:
  "demo_select 0 = (Inl (PostgrestError ''offline''), 1) \<and>
   messages (fst (exec demo_select (demo_insert 2) loadMessages initial 0)) = [] \<and>
   toasts (fst (exec demo_select (demo_insert 2) loadMessages initial 0)) = [load_failed_toast] \<and>
   \<not> loadingMessages (fst (exec demo_select (demo_insert 2) loadMessages initial 0)) \<and>
   snd (snd (exec demo_select (demo_insert 2) loadMessages initial 0)) =
     [Select_call (Inl (PostgrestError ''offline''))] \<and>
   step None mounted (Select_reply 0 (Inl (PostgrestError ''offline''))) =
     \<lparr>ui = fst (exec demo_select (demo_insert 2) loadMessages initial 0), rendered = initial,
      pending = []\<rparr>"
proof -
  let ?run = "exec demo_select (demo_insert 2) loadMessages initial 0"
  have h: "demo_select 0 = (Inl (PostgrestError ''offline''), 1)" by (simp add: demo_select_def)
  have run: "?run = (fst ?run, fst (snd ?run), snd (snd ?run))" by simp
  from h load_failure [OF h run, of None] show ?thesis by simp
qed

text \<open>
  C2. Against the store of the spec, whose list operation answers with the rows of the
  current user in ascending order of \<^verbatim>\<open>created_at\<close>, loading replaces the message sequence
  by exactly that answer: the rows of this user, each as often as the store holds it, and no
  row of another user, in ascending order; no toast is raised and nothing is logged, also
  when the answer is empty. The client's own query names no user: the restriction to the
  current user is the store's.
\<close>

theorem load_replaces:
  assumes "exec (store_select u) ins loadMessages s rows = (s', rows', calls)"
  shows "messages s' = list_messages u rows \<and>
         mset (messages s') = mset (map message (filter (\<lambda>r. user_id r = u) rows)) \<and>
         sorted (map created_at (messages s')) \<and>
         \<not> loadingMessages s' \<and> toasts s' = toasts s \<and> console s' = console s \<and>
         calls = [Select_call (Inr (Some (list_messages u rows)))]"
proof -
  have "store_select u rows = (Inr (Some (list_messages u rows)), rows)"
    by (simp add: store_select_def)
  from exec_loadMessages_succeeds [where sel = "store_select u" and ins = ins, OF this, of s] assms
  have s': "s' = s\<lparr>messages := list_messages u rows, loadingMessages := False\<rparr>"
    and calls: "calls = [Select_call (Inr (Some (list_messages u rows)))]" by simp_all
  have "mset (list_messages u rows) = mset (map message (filter (\<lambda>r. user_id r = u) rows))"
    by (simp add: list_messages_def)
  moreover have "sorted (map created_at (list_messages u rows))"
    by (simp add: list_messages_def)
  ultimately show ?thesis using s' calls by simp
qed

lemma list_alice: "list_messages ''alice'' demo_rows =
     [\<lparr>msg_id = ''a1'', role = User, content = ''hi'', created_at = ''2024-05-01T10:00:01Z''\<rparr>,
      \<lparr>msg_id = ''a2'', role = Assistant, content = ''Hello!'',
        created_at = ''2024-05-01T10:00:05Z''\<rparr>]"
  by (simp add: list_messages_def demo_rows_def)

lemma list_carol: "list_messages ''carol'' demo_rows = []"
  by (simp add: list_messages_def demo_rows_def)

theorem load_replaces_witness:
  "messages (fst (exec (store_select ''alice'') (\<lambda>u r c rows. (Inl (PostgrestError ''read only''), rows)) loadMessages initial demo_rows)) =
     [\<lparr>msg_id = ''a1'', role = User, content = ''hi'', created_at = ''2024-05-01T10:00:01Z''\<rparr>,
      \<lparr>msg_id = ''a2'', role = Assistant, content = ''Hello!'',
        created_at = ''2024-05-01T10:00:05Z''\<rparr>] \<and>
   messages (fst (exec (store_select ''carol'') (\<lambda>u r c rows. (Inl (PostgrestError ''read only''), rows)) loadMessages initial demo_rows)) = [] \<and>
   toasts (fst (exec (store_select ''carol'') (\<lambda>u r c rows. (Inl (PostgrestError ''read only''), rows)) loadMessages initial demo_rows)) = [] \<and>
   \<not> loadingMessages
     (fst (exec (store_select ''carol'') (\<lambda>u r c rows. (Inl (PostgrestError ''read only''), rows)) loadMessages initial demo_rows))"
proof -
  let ?a = "exec (store_select ''alice'') (\<lambda>u r c rows. (Inl (PostgrestError ''read only''), rows)) loadMessages initial demo_rows"
  let ?c = "exec (store_select ''carol'') (\<lambda>u r c rows. (Inl (PostgrestError ''read only''), rows)) loadMessages initial demo_rows"
  have a: "?a = (fst ?a, fst (snd ?a), snd (snd ?a))" by simp
  have c: "?c = (fst ?c, fst (snd ?c), snd (snd ?c))" by simp
  from load_replaces [OF a] have "messages (fst ?a) = list_messages ''alice'' demo_rows"
    by blast
  moreover from load_replaces [OF c]
  have "messages (fst ?c) = list_messages ''carol'' demo_rows \<and>
        toasts (fst ?c) = toasts initial \<and> \<not> loadingMessages (fst ?c)"
    by blast
  ultimately show ?thesis by (simp add: list_alice list_carol initial_def)
qed
























text \<open>
  C10. A send that passes the guard clears the input field in the synchronous steps before
  its first store call: the state it suspends in has the empty input. Whatever the store
  answers to either insertion, no step of the send writes the field again: it is empty
  when the send has run to its end.
\<close>

theorem input_cleared:
  assumes "trim (input s) \<noteq> []" and "\<not> loading s"
  shows "(\<exists>k. sync (sendMessage user rnd s) s =
            (s\<lparr>input := [], loading := True\<rparr>, Await_insert user User (trim (input s)) k)) \<and>
         input (fst (exec sel ins (sendMessage user rnd s) s st)) = []"
proof -
  obtain x1 st1 where i1: "ins user User (trim (input s)) st = (x1, st1)"
    by (cases "ins user User (trim (input s)) st")
  obtain x2 st2 where
    i2: "ins user Assistant (generateAIResponse rnd (trim (input s))) st1 = (x2, st2)"
    by (cases "ins user Assistant (generateAIResponse rnd (trim (input s))) st1")
  have "input (fst (exec sel ins (sendMessage user rnd s) s st)) = []"
  proof (cases x1)
    case (Inl e)
    with exec_sendMessage_first_fails [where ins = ins and sel = sel and rnd = rnd,
        OF assms i1 [unfolded Inl]]
    show ?thesis by simp
  next
    case m1: (Inr m1)
    show ?thesis
    proof (cases x2)
      case (Inl e)
      with exec_sendMessage_second_fails [where ins = ins and sel = sel,
          OF assms i1 [unfolded m1] i2 [unfolded Inl]]
      show ?thesis by simp
    next
      case (Inr m2)
      with exec_sendMessage_succeeds [where ins = ins and sel = sel,
          OF assms i1 [unfolded m1] i2 [unfolded Inr]]
      show ?thesis by simp
    qed
  qed
  with sync_sendMessage [OF assms] show ?thesis by blast
qed

theorem input_cleared_witness:
  "(trim (input demo_state) \<noteq> [] \<and> \<not> loading demo_state) \<and>
   fst (sync (sendMessage (Some ''u1'') demo_draw demo_state) demo_state) =
     demo_state\<lparr>input := [], loading := True\<rparr> \<and>
   input (fst (exec demo_select (demo_insert 0) (sendMessage (Some ''u1'') demo_draw demo_state)
     demo_state 0)) = [] \<and>
   input (fst (exec demo_select (demo_insert 1) (sendMessage (Some ''u1'') demo_draw demo_state)
     demo_state 0)) = [] \<and>
   input (fst (exec demo_select (demo_insert 2) (sendMessage (Some ''u1'') demo_draw demo_state)
     demo_state 0)) = []"
proof -
  note c = input_cleared [OF demo_ok, where user = "Some ''u1''" and rnd = demo_draw
      and sel = demo_select and st = 0]
  from c [where ins = "demo_insert 0"]
  have s: "fst (sync (sendMessage (Some ''u1'') demo_draw demo_state) demo_state) =
     demo_state\<lparr>input := [], loading := True\<rparr>" by auto
  from demo_ok s c [where ins = "demo_insert 0"] c [where ins = "demo_insert 1"]
    c [where ins = "demo_insert 2"]
  show ?thesis by blast
qed

end
